theory Spec2Isabelle
  imports Main
begin

section \<open>The element type\<close>

text \<open>
  \<open>Optional<T>\<close> calls the special member functions of its element type \<open>T\<close> and
  implements none of them. The element type is therefore a parameter of the model: a
  record of functions, one for each member function of \<open>T\<close> that \<open>optional.h\<close> calls.
  Each may fail with an exception of type \<open>'e\<close>.
  \<^item> \<open>copy_ctor v\<close> is \<open>T(const T&)\<close>: the exception, or the object built.
  \<^item> \<open>move_ctor v\<close> is \<open>T(T&&)\<close>: the state the operand is left in (moved-from), and
    the exception or the object built.
  \<^item> \<open>args_ctor a\<close> is \<open>T(Values&&...)\<close> for an argument pack \<open>a\<close>.
  \<^item> \<open>copy_assign d s\<close> is \<open>d = s\<close>: the state of the target afterwards, and the
    exception if one was thrown.
  \<^item> \<open>move_assign d s\<close> is \<open>d = std::move(s)\<close>: the states of target and operand
    afterwards, and the exception if one was thrown.
  The destructor \<open>~T()\<close> does not fail and has no result.
\<close>

record ('t, 'a, 'e) element =
  copy_ctor :: "'t \<Rightarrow> 'e + 't"
  move_ctor :: "'t \<Rightarrow> 't \<times> ('e + 't)"
  args_ctor :: "'a \<Rightarrow> 'e + 't"
  copy_assign :: "'t \<Rightarrow> 't \<Rightarrow> 't \<times> 'e option"
  move_assign :: "'t \<Rightarrow> 't \<Rightarrow> ('t \<times> 't) \<times> 'e option"

text \<open>
  What an instrumented element type would count: every call of a member function of
  \<open>T\<close> that the container makes, in order. A constructor call that throws is recorded
  as a call all the same.
\<close>

datatype event = CopyCtor | MoveCtor | ArgsCtor | CopyAssign | MoveAssign | Dtor

text \<open>
  How a member function of the container can end other than by returning:
  \<open>throw BadOptionalAccess()\<close>, an exception of the element type passing through, or
  undefined behaviour (a dereference of \<open>value_ptr_\<close> where no object lives).
\<close>

datatype 'e abort = BadOptionalAccess | ElementFailure 'e | Undefined

section \<open>The container\<close>

text \<open>
  The three data members of \<open>Optional<T>\<close> (the trailing underscore of the C++ names
  is not a legal Isabelle name):
  \<^item> \<open>data\<close> is the buffer \<open>alignas(T) char data_[sizeof(T)]\<close>: \<open>Some t\<close> when a live
    object \<open>t\<close> occupies it, \<open>None\<close> when it holds no object;
  \<^item> \<open>value_ptr\<close> is \<open>T* value_ptr_\<close>: null, or the address of the buffer, which is
    what placement \<open>new (data_)\<close> returns;
  \<^item> \<open>is_initialized\<close> is the flag \<open>bool is_initialized_\<close>.
\<close>

datatype ptr = Nullptr | DataPtr

record 't Optional =
  data :: "'t option"
  value_ptr :: ptr
  is_initialized :: bool

text \<open>
  A mutating member function returns the container afterwards, the calls it made on the
  element type, and how it ended (\<open>None\<close>: it returned).
\<close>

type_synonym ('t, 'e) effect = "'t Optional \<times> event list \<times> 'e abort option"

text \<open>The default member initializers: \<open>value_ptr_ = nullptr\<close>, \<open>is_initialized_ = false\<close>.\<close>

definition unset :: "'t Optional" where
  "unset = \<lparr>data = None, value_ptr = Nullptr, is_initialized = False\<rparr>"

text \<open>The object \<open>*value_ptr_\<close>, if there is one.\<close>

definition pointee :: "'t Optional \<Rightarrow> 't option" where
  "pointee this = (case value_ptr this of Nullptr \<Rightarrow> None | DataPtr \<Rightarrow> data this)"

text \<open>
  The two statements \<open>value_ptr_ = new (data_) T(...); is_initialized_ = true;\<close>, given
  what the constructor call produced. When the constructor throws, neither assignment is
  executed.
\<close>

definition construct_at ::
  "'t Optional \<Rightarrow> event \<Rightarrow> 'e + 't \<Rightarrow> ('t, 'e) effect" where
  "construct_at this ev r =
     (case r of
        Inl e \<Rightarrow> (this, [ev], Some (ElementFailure e))
      | Inr t \<Rightarrow> (this\<lparr>data := Some t, value_ptr := DataPtr, is_initialized := True\<rparr>, [ev], None))"

text \<open>The statement \<open>*value_ptr_ = s;\<close>\<close>

definition copy_assign_at ::
  "('t, 'a, 'e) element \<Rightarrow> 't Optional \<Rightarrow> 't \<Rightarrow> ('t, 'e) effect" where
  "copy_assign_at T this s =
     (case pointee this of
        None \<Rightarrow> (this, [], Some Undefined)
      | Some d \<Rightarrow>
          (case copy_assign T d s of
             (d', x) \<Rightarrow> (this\<lparr>data := Some d'\<rparr>, [CopyAssign], map_option ElementFailure x)))"

text \<open>The statement \<open>*value_ptr_ = std::move(s);\<close> It also returns the operand afterwards.\<close>

definition move_assign_at ::
  "('t, 'a, 'e) element \<Rightarrow> 't Optional \<Rightarrow> 't \<Rightarrow> ('t Optional \<times> 't) \<times> event list \<times> 'e abort option" where
  "move_assign_at T this s =
     (case pointee this of
        None \<Rightarrow> ((this, s), [], Some Undefined)
      | Some d \<Rightarrow>
          (case move_assign T d s of
             ((d', s'), x) \<Rightarrow>
               ((this\<lparr>data := Some d'\<rparr>, s'), [MoveAssign], map_option ElementFailure x)))"

subsection \<open>Reset, destructor, HasValue\<close>

definition Reset :: "'t Optional \<Rightarrow> ('t, 'e) effect" where
  "Reset this =
     (if \<not> is_initialized this then (this, [], None)
      else (case pointee this of
              None \<Rightarrow> (this, [], Some Undefined)
            | Some _ \<Rightarrow>
                (this\<lparr>data := None, value_ptr := Nullptr, is_initialized := False\<rparr>, [Dtor], None)))"

text \<open>\<open>~Optional() { Reset(); }\<close>\<close>

definition Optional_dtor :: "'t Optional \<Rightarrow> ('t, 'e) effect" where
  "Optional_dtor this = Reset this"

definition HasValue :: "'t Optional \<Rightarrow> bool" where
  "HasValue this = is_initialized this"

subsection \<open>CopyFrom and MoveFrom\<close>

definition CopyFrom ::
  "('t, 'a, 'e) element \<Rightarrow> 't Optional \<Rightarrow> 't Optional \<Rightarrow> ('t, 'e) effect" where
  "CopyFrom T this other =
     (case pointee other of
        None \<Rightarrow> (this, [], Some Undefined)
      | Some s \<Rightarrow>
          (if \<not> is_initialized this then construct_at this CopyCtor (copy_ctor T s)
           else copy_assign_at T this s))"

text \<open>
  \<open>MoveFrom\<close> writes to the element of \<open>other\<close> (the move leaves it in its moved-from
  state) and to no other member of \<open>other\<close>; the result is the pair of both containers.
\<close>

definition MoveFrom ::
  "('t, 'a, 'e) element \<Rightarrow> 't Optional \<Rightarrow> 't Optional \<Rightarrow>
     ('t Optional \<times> 't Optional) \<times> event list \<times> 'e abort option" where
  "MoveFrom T this other =
     (case pointee other of
        None \<Rightarrow> ((this, other), [], Some Undefined)
      | Some s \<Rightarrow>
          (if \<not> is_initialized this then
             (case move_ctor T s of
                (s', r) \<Rightarrow>
                  (case construct_at this MoveCtor r of
                     (this', tr, x) \<Rightarrow> ((this', other\<lparr>data := Some s'\<rparr>), tr, x)))
           else
             (case move_assign_at T this s of
                ((this', s'), tr, x) \<Rightarrow> ((this', other\<lparr>data := Some s'\<rparr>), tr, x))))"

subsection \<open>Constructors\<close>

text \<open>
  A constructor starts from the default member initializers. For a constructor that
  throws, the container returned is the state of the members at the throw.
  The moved-from state of a caller's \<open>T&&\<close> operand is not part of the container and is
  dropped.
\<close>

definition Optional_default :: "'t Optional" where
  "Optional_default = unset"

definition Optional_copy_value :: "('t, 'a, 'e) element \<Rightarrow> 't \<Rightarrow> ('t, 'e) effect" where
  "Optional_copy_value T v = construct_at unset CopyCtor (copy_ctor T v)"

definition Optional_move_value :: "('t, 'a, 'e) element \<Rightarrow> 't \<Rightarrow> ('t, 'e) effect" where
  "Optional_move_value T v = construct_at unset MoveCtor (snd (move_ctor T v))"

definition Optional_copy :: "('t, 'a, 'e) element \<Rightarrow> 't Optional \<Rightarrow> ('t, 'e) effect" where
  "Optional_copy T other =
     (if \<not> is_initialized other then (unset, [], None) else CopyFrom T unset other)"

definition Optional_move ::
  "('t, 'a, 'e) element \<Rightarrow> 't Optional \<Rightarrow>
     ('t Optional \<times> 't Optional) \<times> event list \<times> 'e abort option" where
  "Optional_move T other =
     (if \<not> is_initialized other then ((unset, other), [], None) else MoveFrom T unset other)"

subsection \<open>Assignment operators\<close>

text \<open>\<open>operator=(const T&)\<close>\<close>

definition assign_copy_value ::
  "('t, 'a, 'e) element \<Rightarrow> 't Optional \<Rightarrow> 't \<Rightarrow> ('t, 'e) effect" where
  "assign_copy_value T this v =
     (if \<not> is_initialized this then construct_at this CopyCtor (copy_ctor T v)
      else copy_assign_at T this v)"

text \<open>\<open>operator=(T&&)\<close>\<close>

definition assign_move_value ::
  "('t, 'a, 'e) element \<Rightarrow> 't Optional \<Rightarrow> 't \<Rightarrow> ('t, 'e) effect" where
  "assign_move_value T this v =
     (if \<not> is_initialized this then construct_at this MoveCtor (snd (move_ctor T v))
      else (case move_assign_at T this v of ((this', _), tr, x) \<Rightarrow> (this', tr, x)))"

text \<open>\<open>operator=(const Optional&)\<close>, for \<open>rhs\<close> an object other than \<open>*this\<close>.\<close>

definition assign_copy ::
  "('t, 'a, 'e) element \<Rightarrow> 't Optional \<Rightarrow> 't Optional \<Rightarrow> ('t, 'e) effect" where
  "assign_copy T this rhs =
     (if \<not> is_initialized rhs then
        (if is_initialized this then Reset this else (this, [], None))
      else CopyFrom T this rhs)"

text \<open>\<open>operator=(Optional&&)\<close>, for \<open>rhs\<close> an object other than \<open>*this\<close>.\<close>

definition assign_move ::
  "('t, 'a, 'e) element \<Rightarrow> 't Optional \<Rightarrow> 't Optional \<Rightarrow>
     ('t Optional \<times> 't Optional) \<times> event list \<times> 'e abort option" where
  "assign_move T this rhs =
     (if \<not> is_initialized rhs then
        (if is_initialized this then
           (case Reset this of (this', tr, x) \<Rightarrow> ((this', rhs), tr, x))
         else ((this, rhs), [], None))
      else MoveFrom T this rhs)"

subsection \<open>Emplace\<close>

definition Emplace ::
  "('t, 'a, 'e) element \<Rightarrow> 't Optional \<Rightarrow> 'a \<Rightarrow> ('t, 'e) effect" where
  "Emplace T this values =
     (case Reset this of
        (this', tr, Some x) \<Rightarrow> (this', tr, Some x)
      | (this', tr, None) \<Rightarrow>
          (case construct_at this' ArgsCtor (args_ctor T values) of
             (this'', tr', x) \<Rightarrow> (this'', tr @ tr', x)))"

subsection \<open>Accessors\<close>




text \<open>\<open>operator->\<close> returns the pointer without dereferencing it.\<close>

definition arrow :: "'t Optional \<Rightarrow> ptr" where
  "arrow this = value_ptr this"

text \<open>
  \<open>Value() const &\<close> makes the check; the other two forms call it through
  \<open>const_cast\<close>.
\<close>

definition Value_const :: "'t Optional \<Rightarrow> 't Optional \<times> ('e abort + 't)" where
  "Value_const this =
     (if \<not> is_initialized this then (this, Inl BadOptionalAccess)
      else (case pointee this of None \<Rightarrow> (this, Inl Undefined) | Some t \<Rightarrow> (this, Inr t)))"



section \<open>Calls and lifetimes\<close>

text \<open>
  The ways to create a container and the mutating calls on one, as data, so that a whole
  lifetime can be run: one constructor, any sequence of calls, the destructor.
\<close>

datatype 't ctor =
    Default
  | FromValueCopy 't
  | FromValueMove 't
  | FromOptionalCopy "'t Optional"
  | FromOptionalMove "'t Optional"

datatype ('t, 'a) "call" =
    AssignValueCopy 't
  | AssignValueMove 't
  | AssignOptionalCopy "'t Optional"
  | AssignOptionalMove "'t Optional"
  | EmplaceCall 'a
  | ResetCall

fun construct :: "('t, 'a, 'e) element \<Rightarrow> 't ctor \<Rightarrow> ('t, 'e) effect" where
  "construct T Default = (Optional_default, [], None)"
| "construct T (FromValueCopy v) = Optional_copy_value T v"
| "construct T (FromValueMove v) = Optional_move_value T v"
| "construct T (FromOptionalCopy other) = Optional_copy T other"
| "construct T (FromOptionalMove other) =
     (case Optional_move T other of ((this, _), tr, x) \<Rightarrow> (this, tr, x))"

fun exec :: "('t, 'a, 'e) element \<Rightarrow> 't Optional \<Rightarrow> ('t, 'a) call \<Rightarrow> ('t, 'e) effect" where
  "exec T this (AssignValueCopy v) = assign_copy_value T this v"
| "exec T this (AssignValueMove v) = assign_move_value T this v"
| "exec T this (AssignOptionalCopy rhs) = assign_copy T this rhs"
| "exec T this (AssignOptionalMove rhs) =
     (case assign_move T this rhs of ((this', _), tr, x) \<Rightarrow> (this', tr, x))"
| "exec T this (EmplaceCall values) = Emplace T this values"
| "exec T this ResetCall = Reset this"

text \<open>
  The effect of each call of a sequence, then of the destructor. A call that throws
  leaves a container that the caller can go on using, so the run goes on.
\<close>

fun run ::
  "('t, 'a, 'e) element \<Rightarrow> 't Optional \<Rightarrow> ('t, 'a) call list \<Rightarrow> ('t, 'e) effect list" where
  "run T this [] = [Optional_dtor this]"
| "run T this (c # cs) =
     (case exec T this c of (this', tr, x) \<Rightarrow> (this', tr, x) # run T this' cs)"

text \<open>A constructor that throws creates no object: nothing is called on it, nor destroyed.\<close>

definition lifetime ::
  "('t, 'a, 'e) element \<Rightarrow> 't ctor \<Rightarrow> ('t, 'a) call list \<Rightarrow> ('t, 'e) effect list" where
  "lifetime T k cs =
     (case construct T k of
        (this, tr, None) \<Rightarrow> (this, tr, None) # run T this cs
      | (this, tr, Some x) \<Rightarrow> [(this, tr, Some x)])"

definition returned :: "('t, 'e) effect \<Rightarrow> bool" where
  "returned r = (case r of (_, _, x) \<Rightarrow> x = None)"

section \<open>The invariant of the data model\<close>

text \<open>
  The flag is set exactly when an object lives in the buffer, and exactly then the
  pointer is the address of the buffer.
\<close>

definition consistent :: "'t Optional \<Rightarrow> bool" where
  "consistent this =
     (is_initialized this = (data this \<noteq> None) \<and>
      is_initialized this = (value_ptr this = DataPtr))"

text \<open>
  The consistent containers are the one with the default member initializers and, for
  each element \<open>t\<close>, the one that holds \<open>t\<close>.
\<close>

definition holding :: "'t \<Rightarrow> 't Optional" where
  "holding t = \<lparr>data = Some t, value_ptr = DataPtr, is_initialized = True\<rparr>"

text \<open>
  What a constructor or a mutating call has to leave behind, whether it returned or
  threw: a consistent container, reached without undefined behaviour. If it threw, what
  it threw is an exception of the element type: only \<open>Value()\<close> throws
  \<open>BadOptionalAccess\<close>.
\<close>

definition sound :: "('t, 'e) effect \<Rightarrow> bool" where
  "sound r =
     (case r of
        (this, _, x) \<Rightarrow> consistent this \<and> x \<noteq> Some Undefined \<and> x \<noteq> Some BadOptionalAccess)"

text \<open>An element type none of whose operations throws, on any operand.\<close>

definition nothrow :: "('t, 'a, 'e) element \<Rightarrow> bool" where
  "nothrow T =
     ((\<forall>v. \<exists>t. copy_ctor T v = Inr t) \<and>
      (\<forall>v. \<exists>t. snd (move_ctor T v) = Inr t) \<and>
      (\<forall>a. \<exists>t. args_ctor T a = Inr t) \<and>
      (\<forall>d s. snd (copy_assign T d s) = None) \<and>
      (\<forall>d s. snd (move_assign T d s) = None))"

fun consistent_ctor :: "'t ctor \<Rightarrow> bool" where
  "consistent_ctor (FromOptionalCopy other) = consistent other"
| "consistent_ctor (FromOptionalMove other) = consistent other"
| "consistent_ctor _ = True"

fun consistent_call :: "('t, 'a) call \<Rightarrow> bool" where
  "consistent_call (AssignOptionalCopy rhs) = consistent rhs"
| "consistent_call (AssignOptionalMove rhs) = consistent rhs"
| "consistent_call _ = True"

section \<open>The state machine of the specification\<close>

text \<open>
  This section follows the words of the specification, not the code: two states, and the
  transitions it lists. A value-constructed container starts Occupied, a default one
  Empty, a copy or a move of a source starts in the state of the source. Assignment of a
  value and Emplace lead to Occupied, Reset and destruction to Empty, assignment from a
  source to the state of the source.
\<close>

datatype state = Empty | Occupied

definition state_of :: "'t Optional \<Rightarrow> state" where
  "state_of this = (if HasValue this then Occupied else Empty)"

text \<open>The state that \<open>HasValue()\<close> shows after a call.\<close>

definition observed :: "('t, 'e) effect \<Rightarrow> state" where
  "observed r = (case r of (this, _, _) \<Rightarrow> state_of this)"

fun machine_init :: "'t ctor \<Rightarrow> state" where
  "machine_init Default = Empty"
| "machine_init (FromValueCopy v) = Occupied"
| "machine_init (FromValueMove v) = Occupied"
| "machine_init (FromOptionalCopy other) = state_of other"
| "machine_init (FromOptionalMove other) = state_of other"

fun machine_step :: "state \<Rightarrow> ('t, 'a) call \<Rightarrow> state" where
  "machine_step s (AssignValueCopy v) = Occupied"
| "machine_step s (AssignValueMove v) = Occupied"
| "machine_step s (AssignOptionalCopy rhs) = state_of rhs"
| "machine_step s (AssignOptionalMove rhs) = state_of rhs"
| "machine_step s (EmplaceCall values) = Occupied"
| "machine_step s ResetCall = Empty"

fun machine_run :: "state \<Rightarrow> ('t, 'a) call list \<Rightarrow> state list" where
  "machine_run s [] = [Empty]"
| "machine_run s (c # cs) = machine_step s c # machine_run (machine_step s c) cs"

definition machine_lifetime :: "'t ctor \<Rightarrow> ('t, 'a) call list \<Rightarrow> state list" where
  "machine_lifetime k cs = machine_init k # machine_run (machine_init k) cs"

section \<open>Assignment between objects of a store\<close>

text \<open>
  \<open>lhs = rhs\<close> for two containers given by their addresses in a store. \<open>rhs\<close> is a
  reference to const, so the call writes to the object at \<open>lhs\<close> only. With
  \<open>lhs = rhs\<close> this is the self-assignment \<open>c = c\<close>: every read of \<open>rhs\<close> in
  \<open>operator=\<close> and \<open>CopyFrom\<close> then reads the object at \<open>lhs\<close>, and the element is
  assigned to itself.
\<close>

definition assign_copy_in ::
  "('t, 'a, 'e) element \<Rightarrow> (nat \<Rightarrow> 't Optional) \<Rightarrow> nat \<Rightarrow> nat \<Rightarrow>
     (nat \<Rightarrow> 't Optional) \<times> event list \<times> 'e abort option" where
  "assign_copy_in T h lhs rhs =
     (case assign_copy T (h lhs) (h rhs) of (this', tr, x) \<Rightarrow> (h(lhs := this'), tr, x))"

section \<open>Element types for concrete checks\<close>

text \<open>
  Integers, built by \<open>T(a, b)\<close> as the sum \<open>a + b\<close>. Every operation throws its
  operand when that is negative, and changes nothing then; a move leaves \<open>0\<close> in its
  operand.
\<close>

definition probe :: "(int, int \<times> int, int) element" where
  "probe =
     \<lparr>copy_ctor = (\<lambda>v. if v < 0 then Inl v else Inr v),
      move_ctor = (\<lambda>v. if v < 0 then (v, Inl v) else (0, Inr v)),
      args_ctor = (\<lambda>(a, b). if a + b < 0 then Inl (a + b) else Inr (a + b)),
      copy_assign = (\<lambda>d s. if s < 0 then (d, Some s) else (s, None)),
      move_assign = (\<lambda>d s. if s < 0 then ((d, s), Some s) else ((s, 0), None))\<rparr>"

text \<open>
  The same integers with operations that never throw: the operations of \<open>int\<close> itself,
  but for the \<open>0\<close> that a move leaves behind.
\<close>

definition plain :: "(int, int \<times> int, int) element" where
  "plain =
     \<lparr>copy_ctor = (\<lambda>v. Inr v),
      move_ctor = (\<lambda>v. (0, Inr v)),
      args_ctor = (\<lambda>(a, b). Inr (a + b)),
      copy_assign = (\<lambda>d s. (s, None)),
      move_assign = (\<lambda>d s. ((s, 0), None))\<rparr>"

section \<open>Basic facts\<close>

subsection \<open>Consistent containers\<close>

lemma consistent_pointee: "consistent this \<Longrightarrow> pointee this = data this"
  by (cases "value_ptr this") (auto simp: consistent_def pointee_def)

lemma consistent_empty: "consistent this \<Longrightarrow> \<not> is_initialized this \<Longrightarrow> this = unset"
  by (cases "value_ptr this") (auto simp: consistent_def unset_def)

lemma consistent_unset: "consistent unset"
  by (simp add: consistent_def unset_def)

lemma construct_at_consistent:
  "consistent this \<Longrightarrow> construct_at this ev r = (this', tr, x) \<Longrightarrow> consistent this' \<and> x \<noteq> Some Undefined"
  by (auto simp: construct_at_def consistent_def split: sum.splits)

lemma copy_assign_at_consistent:
  "consistent this \<Longrightarrow> is_initialized this \<Longrightarrow> copy_assign_at T this s = (this', tr, x) \<Longrightarrow>
     consistent this' \<and> is_initialized this' \<and> x \<noteq> Some Undefined"
  by (auto simp: copy_assign_at_def consistent_pointee consistent_def split: option.splits prod.splits)

lemma move_assign_at_consistent:
  "consistent this \<Longrightarrow> is_initialized this \<Longrightarrow> move_assign_at T this s = ((this', s'), tr, x) \<Longrightarrow>
     consistent this' \<and> is_initialized this' \<and> x \<noteq> Some Undefined"
  by (auto simp: move_assign_at_def consistent_pointee consistent_def split: option.splits prod.splits)

lemma Reset_consistent:
  assumes "consistent this" and "Reset this = (this', tr, x)"
  shows "this' = unset \<and> x = None \<and> tr = (if is_initialized this then [Dtor] else [])"
proof (cases "is_initialized this")
  case False
  with assms consistent_empty [OF assms(1)] show ?thesis
    by (simp add: Reset_def)
next
  case True
  with assms(1) obtain t where "pointee this = Some t"
    by (auto simp: consistent_pointee consistent_def)
  with True assms(2) show ?thesis
    by (auto simp: Reset_def unset_def)
qed

lemma CopyFrom_consistent:
  "consistent this \<Longrightarrow> consistent other \<Longrightarrow> is_initialized other \<Longrightarrow>
   CopyFrom T this other = (this', tr, x) \<Longrightarrow> consistent this' \<and> x \<noteq> Some Undefined"
  by (auto simp: CopyFrom_def consistent_pointee split: option.splits if_splits
      dest: construct_at_consistent copy_assign_at_consistent) (auto simp: consistent_def)

lemma MoveFrom_consistent:
  "consistent this \<Longrightarrow> consistent other \<Longrightarrow> is_initialized other \<Longrightarrow>
   MoveFrom T this other = ((this', other'), tr, x) \<Longrightarrow>
     consistent this' \<and> consistent other' \<and> is_initialized other' \<and> x \<noteq> Some Undefined"
  by (auto simp: MoveFrom_def consistent_pointee split: option.splits if_splits prod.splits
      dest: construct_at_consistent move_assign_at_consistent) (auto simp: consistent_def)



lemma consistent_cases:
  assumes "consistent this"
  obtains "this = unset" | t where "this = holding t"
proof (cases "is_initialized this")
  case False
  with assms that(1) show ?thesis by (simp add: consistent_empty)
next
  case True
  with assms obtain t where "data this = Some t" "value_ptr this = DataPtr"
    by (auto simp: consistent_def)
  with True have "this = holding t" by (simp add: holding_def)
  with that(2) show ?thesis by simp
qed

lemma consistent_holding: "consistent (holding t)"
  by (simp add: consistent_def holding_def)

lemma exec_consistent:
  assumes "consistent this" and "consistent_call c" and "exec T this c = (this', tr, x)"
  shows "consistent this' \<and> x \<noteq> Some Undefined"
proof (cases c)
  case (AssignValueCopy v)
  with assms show ?thesis
    by (auto simp: assign_copy_value_def split: if_splits
        dest: construct_at_consistent copy_assign_at_consistent)
next
  case (AssignValueMove v)
  with assms show ?thesis
    by (auto simp: assign_move_value_def split: if_splits prod.splits
        dest: construct_at_consistent move_assign_at_consistent)
next
  case (AssignOptionalCopy rhs)
  with assms show ?thesis
    by (auto simp: assign_copy_def consistent_unset split: if_splits
        dest: Reset_consistent CopyFrom_consistent)
next
  case (AssignOptionalMove rhs)
  with assms show ?thesis
    by (auto simp: assign_move_def consistent_unset split: if_splits prod.splits
        dest: Reset_consistent MoveFrom_consistent)
next
  case (EmplaceCall a)
  obtain r tr0 x0 where r: "Reset this = (r, tr0, x0 :: 'c abort option)"
    by (cases "Reset this :: ('a, 'c) effect") auto
  from Reset_consistent [OF assms(1) r] have "r = unset" "x0 = None" by simp_all
  with r EmplaceCall assms(3) show ?thesis
    by (auto simp: Emplace_def consistent_unset split: prod.splits
        dest!: construct_at_consistent [OF consistent_unset])
next
  case ResetCall
  with assms show ?thesis
    by (auto simp: consistent_unset dest: Reset_consistent)
qed


subsection \<open>The member functions on the two kinds of consistent container\<close>

lemma construct_at_state:
  "construct_at this ev r = (this', tr, None) \<Longrightarrow> state_of this' = Occupied"
  by (auto simp: construct_at_def state_of_def HasValue_def split: sum.splits)

lemma state_of_simps [simp]:
  "state_of unset = Empty" "state_of (holding t) = Occupied"
  by (simp_all add: state_of_def HasValue_def unset_def holding_def)

lemma pointee_simps [simp]:
  "pointee unset = None" "pointee (holding t) = Some t"
  by (simp_all add: pointee_def unset_def holding_def)

lemma is_initialized_simps [simp]:
  "\<not> is_initialized unset" "is_initialized (holding t)"
  by (simp_all add: unset_def holding_def)

lemma holding_update [simp]:
  "(holding t)\<lparr>data := Some t'\<rparr> = holding t'"
  "unset\<lparr>data := Some t, value_ptr := DataPtr, is_initialized := True\<rparr> = holding t"
  "(holding t)\<lparr>data := None, value_ptr := Nullptr, is_initialized := False\<rparr> = unset"
  by (simp_all add: unset_def holding_def)

lemma Reset_simps [simp]:
  "Reset unset = (unset, [], None)" "Reset (holding t) = (unset, [Dtor], None)"
  by (simp_all add: Reset_def)

lemma construct_at_unset:
  "construct_at unset ev r =
     (case r of Inl e \<Rightarrow> (unset, [ev], Some (ElementFailure e)) | Inr t \<Rightarrow> (holding t, [ev], None))"
  by (simp add: construct_at_def split: sum.splits)

lemma copy_assign_at_holding:
  "copy_assign_at T (holding d) s =
     (holding (fst (copy_assign T d s)), [CopyAssign],
      map_option ElementFailure (snd (copy_assign T d s)))"
  by (simp add: copy_assign_at_def split: prod.splits)

lemma move_assign_at_holding:
  "move_assign_at T (holding d) s =
     ((holding (fst (fst (move_assign T d s))), snd (fst (move_assign T d s))), [MoveAssign],
      map_option ElementFailure (snd (move_assign T d s)))"
  by (simp add: move_assign_at_def split: prod.splits)

lemma exec_state:
  assumes "consistent this" and "consistent_call c" and "exec T this c = (this', tr, None)"
  shows "state_of this' = machine_step (state_of this) c"
proof (cases c)
  case (AssignValueCopy v)
  from assms(1) show ?thesis
  proof (cases rule: consistent_cases)
    case 1
    with assms(3) AssignValueCopy show ?thesis
      by (auto simp: assign_copy_value_def construct_at_unset split: sum.splits)
  next
    case (2 t)
    with assms(3) AssignValueCopy show ?thesis
      by (auto simp: assign_copy_value_def copy_assign_at_holding)
  qed
next
  case (AssignValueMove v)
  from assms(1) show ?thesis
  proof (cases rule: consistent_cases)
    case 1
    with assms(3) AssignValueMove show ?thesis
      by (auto simp: assign_move_value_def construct_at_unset split: sum.splits)
  next
    case (2 t)
    with assms(3) AssignValueMove show ?thesis
      by (auto simp: assign_move_value_def move_assign_at_holding)
  qed
next
  case (AssignOptionalCopy rhs)
  with assms(2) have "consistent rhs" by simp
  then show ?thesis
  proof (cases rule: consistent_cases)
    case 1
    from assms(1) show ?thesis
      by (cases rule: consistent_cases)
        (use 1 assms(3) AssignOptionalCopy in \<open>auto simp: assign_copy_def\<close>)
  next
    case (2 s)
    from assms(1) show ?thesis
      by (cases rule: consistent_cases)
        (use 2 assms(3) AssignOptionalCopy in
          \<open>auto simp: assign_copy_def CopyFrom_def construct_at_unset copy_assign_at_holding
             split: sum.splits\<close>)
  qed
next
  case (AssignOptionalMove rhs)
  with assms(2) have "consistent rhs" by simp
  then show ?thesis
  proof (cases rule: consistent_cases)
    case 1
    from assms(1) show ?thesis
      by (cases rule: consistent_cases)
        (use 1 assms(3) AssignOptionalMove in \<open>auto simp: assign_move_def\<close>)
  next
    case (2 s)
    from assms(1) show ?thesis
      by (cases rule: consistent_cases)
        (use 2 assms(3) AssignOptionalMove in
          \<open>auto simp: assign_move_def MoveFrom_def construct_at_unset move_assign_at_holding
             split: sum.splits prod.splits\<close>)
  qed
next
  case (EmplaceCall a)
  from assms(1) show ?thesis
    by (cases rule: consistent_cases)
      (use assms(3) EmplaceCall in
        \<open>auto simp: Emplace_def construct_at_unset split: sum.splits\<close>)
next
  case ResetCall
  from assms(1) show ?thesis
    by (cases rule: consistent_cases) (use assms(3) ResetCall in auto)
qed


subsection \<open>Constructors, calls and runs\<close>

lemma observed_simp: "observed (this, tr, x) = state_of this"
  by (simp add: observed_def)

lemma sound_simp:
  "sound (this, tr, x) =
     (consistent this \<and> x \<noteq> Some Undefined \<and> x \<noteq> Some BadOptionalAccess)"
  by (simp add: sound_def)

lemma returned_simp: "returned (this, tr, x) = (x = None)"
  by (simp add: returned_def)

lemma construct_consistent:
  assumes "consistent_ctor k" and "construct T k = (this, tr, x)"
  shows "consistent this \<and> x \<noteq> Some Undefined"
proof (cases k)
  case Default
  with assms show ?thesis by (auto simp: Optional_default_def consistent_unset)
next
  case (FromValueCopy v)
  with assms show ?thesis
    by (auto simp: Optional_copy_value_def construct_at_unset consistent_unset
        consistent_holding split: sum.splits)
next
  case (FromValueMove v)
  with assms show ?thesis
    by (auto simp: Optional_move_value_def construct_at_unset consistent_unset
        consistent_holding split: sum.splits)
next
  case (FromOptionalCopy other)
  with assms(1) have "consistent other" by simp
  then show ?thesis
    by (cases rule: consistent_cases)
      (use assms(2) FromOptionalCopy in
        \<open>auto simp: Optional_copy_def CopyFrom_def construct_at_unset consistent_unset
           consistent_holding split: sum.splits\<close>)
next
  case (FromOptionalMove other)
  with assms(1) have "consistent other" by simp
  then show ?thesis
    by (cases rule: consistent_cases)
      (use assms(2) FromOptionalMove in
        \<open>auto simp: Optional_move_def MoveFrom_def construct_at_unset consistent_unset
           consistent_holding split: sum.splits prod.splits\<close>)
qed

lemma construct_state:
  assumes "consistent_ctor k" and "construct T k = (this, tr, None)"
  shows "state_of this = machine_init k"
proof (cases k)
  case Default
  with assms show ?thesis
    by (auto simp: Optional_default_def)
next
  case (FromValueCopy v)
  with assms show ?thesis
    by (auto simp: Optional_copy_value_def dest: construct_at_state)
next
  case (FromValueMove v)
  with assms show ?thesis
    by (auto simp: Optional_move_value_def dest: construct_at_state)
next
  case (FromOptionalCopy other)
  with assms(1) have "consistent other" by simp
  then show ?thesis
    by (cases rule: consistent_cases)
      (use assms(2) FromOptionalCopy in
        \<open>auto simp: Optional_copy_def CopyFrom_def construct_at_unset split: sum.splits\<close>)
next
  case (FromOptionalMove other)
  with assms(1) have "consistent other" by simp
  then show ?thesis
    by (cases rule: consistent_cases)
      (use assms(2) FromOptionalMove in
        \<open>auto simp: Optional_move_def MoveFrom_def construct_at_unset
           split: sum.splits prod.splits\<close>)
qed

lemma run_machine:
  "consistent this \<Longrightarrow> list_all consistent_call cs \<Longrightarrow> list_all returned (run T this cs) \<Longrightarrow>
   map observed (run T this cs) = machine_run (state_of this) cs"
proof (induction cs arbitrary: this)
  case Nil
  from Nil(1) show ?case
    by (cases rule: consistent_cases) (simp_all add: Optional_dtor_def observed_simp)
next
  case (Cons c cs)
  obtain this' tr x where e: "exec T this c = (this', tr, x)"
    by (cases "exec T this c") auto
  with Cons.prems have x: "x = None" by (simp add: returned_simp)
  from Cons.prems e have c': "consistent this'"
    by (auto dest: exec_consistent)
  from Cons.prems e x have s: "state_of this' = machine_step (state_of this) c"
    by (auto dest: exec_state)
  from Cons.prems e have "list_all returned (run T this' cs)" by simp
  with Cons.IH [OF c'] Cons.prems have
    "map observed (run T this' cs) = machine_run (state_of this') cs"
    by simp
  with e s show ?case by (simp add: observed_simp)
qed

lemma run_last:
  "consistent this \<Longrightarrow> list_all consistent_call cs \<Longrightarrow>
   observed (run T this cs ! length cs) = Empty \<and> returned (run T this cs ! length cs)"
proof (induction cs arbitrary: this)
  case Nil
  from Nil(1) show ?case
    by (cases rule: consistent_cases)
      (simp_all add: Optional_dtor_def observed_simp returned_simp)
next
  case (Cons c cs)
  obtain this' tr x where e: "exec T this c = (this', tr, x)"
    by (cases "exec T this c") auto
  from Cons.prems e have "consistent this'"
    by (auto dest: exec_consistent)
  with Cons e show ?case by simp
qed

lemma run_step:
  "consistent this \<Longrightarrow> list_all consistent_call cs \<Longrightarrow> i < length cs \<Longrightarrow>
   returned (run T this cs ! i) \<Longrightarrow>
   observed (run T this cs ! i) =
     machine_step (observed (((this, [], None) # run T this cs) ! i)) (cs ! i)"
proof (induction cs arbitrary: this i)
  case Nil
  then show ?case by simp
next
  case (Cons c cs)
  obtain this' tr x where e: "exec T this c = (this', tr, x)"
    by (cases "exec T this c") auto
  from Cons.prems e have c': "consistent this'"
    by (auto dest: exec_consistent)
  show ?case
  proof (cases i)
    case 0
    with Cons.prems e have "x = None" by (simp add: returned_simp)
    with Cons.prems e have "state_of this' = machine_step (state_of this) c"
      by (auto dest: exec_state)
    with 0 e show ?thesis by (simp add: observed_simp)
  next
    case (Suc j)
    with Cons.prems e have "j < length cs" "returned (run T this' cs ! j)" by simp_all
    with Cons.IH [OF c', of j] Cons.prems have
      "observed (run T this' cs ! j) =
         machine_step (observed (((this', [], None) # run T this' cs) ! j)) (cs ! j)"
      by simp
    moreover have "observed (((this', [], None) # run T this' cs) ! j) =
        observed (((this', tr, x) # run T this' cs) ! j)"
      by (cases j) (simp_all add: observed_simp)
    ultimately show ?thesis using Suc e by simp
  qed
qed

subsection \<open>More on the two kinds of consistent container\<close>

lemma HasValue_simps [simp]: "\<not> HasValue unset" "HasValue (holding t)"
  by (simp_all add: HasValue_def)

lemma data_simps [simp]: "data unset = None" "data (holding t) = Some t"
  by (simp_all add: unset_def holding_def)

lemma holding_inject [simp]: "holding t = holding t' \<longleftrightarrow> t = t'"
  by (auto simp: holding_def)

lemma unset_neq_holding [simp]: "unset \<noteq> holding t" "holding t \<noteq> unset"
  by (simp_all add: unset_def holding_def)

lemma CopyFrom_simps:
  "CopyFrom T unset (holding s) = construct_at unset CopyCtor (copy_ctor T s)"
  "CopyFrom T (holding d) (holding s) = copy_assign_at T (holding d) s"
  by (simp_all add: CopyFrom_def)

lemma MoveFrom_simps:
  "MoveFrom T unset (holding s) =
     (case construct_at unset MoveCtor (snd (move_ctor T s)) of
        (this', tr, x) \<Rightarrow> ((this', holding (fst (move_ctor T s))), tr, x))"
  "MoveFrom T (holding d) (holding s) =
     (case move_assign_at T (holding d) s of
        ((this', s'), tr, x) \<Rightarrow> ((this', holding s'), tr, x))"
  by (simp_all add: MoveFrom_def split: prod.splits)

lemma consistent_data:
  "consistent this \<Longrightarrow> data this = Some t \<Longrightarrow> this = holding t"
  by (cases rule: consistent_cases) auto

lemma consistent_not_HasValue:
  "consistent this \<Longrightarrow> \<not> HasValue this \<Longrightarrow> this = unset"
  by (cases rule: consistent_cases) auto

subsection \<open>Calls that throw, and calls that return\<close>

lemma exec_thrown:
  assumes "consistent this" and "consistent_call c" and "exec T this c = (this', tr, Some x)"
  shows "state_of this' = state_of this \<or> state_of this' = Empty"
proof (cases c)
  case (AssignValueCopy v)
  from assms(1) show ?thesis
    by (cases rule: consistent_cases)
      (use assms(3) AssignValueCopy in
        \<open>auto simp: assign_copy_value_def construct_at_unset copy_assign_at_holding
           split: sum.splits\<close>)
next
  case (AssignValueMove v)
  from assms(1) show ?thesis
    by (cases rule: consistent_cases)
      (use assms(3) AssignValueMove in
        \<open>auto simp: assign_move_value_def construct_at_unset move_assign_at_holding
           split: sum.splits\<close>)
next
  case (AssignOptionalCopy rhs)
  with assms(2) have "consistent rhs" by simp
  then show ?thesis
  proof (cases rule: consistent_cases)
    case 1
    from assms(1) show ?thesis
      by (cases rule: consistent_cases)
        (use 1 assms(3) AssignOptionalCopy in \<open>auto simp: assign_copy_def\<close>)
  next
    case (2 s)
    from assms(1) show ?thesis
      by (cases rule: consistent_cases)
        (use 2 assms(3) AssignOptionalCopy in
          \<open>auto simp: assign_copy_def CopyFrom_simps construct_at_unset copy_assign_at_holding
             split: sum.splits\<close>)
  qed
next
  case (AssignOptionalMove rhs)
  with assms(2) have "consistent rhs" by simp
  then show ?thesis
  proof (cases rule: consistent_cases)
    case 1
    from assms(1) show ?thesis
      by (cases rule: consistent_cases)
        (use 1 assms(3) AssignOptionalMove in \<open>auto simp: assign_move_def\<close>)
  next
    case (2 s)
    from assms(1) show ?thesis
      by (cases rule: consistent_cases)
        (use 2 assms(3) AssignOptionalMove in
          \<open>auto simp: assign_move_def MoveFrom_simps construct_at_unset move_assign_at_holding
             split: sum.splits prod.splits\<close>)
  qed
next
  case (EmplaceCall a)
  from assms(1) show ?thesis
    by (cases rule: consistent_cases)
      (use assms(3) EmplaceCall in
        \<open>auto simp: Emplace_def construct_at_unset split: sum.splits\<close>)
next
  case ResetCall
  from assms(1) show ?thesis
    by (cases rule: consistent_cases) (use assms(3) ResetCall in auto)
qed

lemma run_thrown:
  "consistent this \<Longrightarrow> list_all consistent_call cs \<Longrightarrow> i < length cs \<Longrightarrow>
   \<not> returned (run T this cs ! i) \<Longrightarrow>
   observed (run T this cs ! i) = observed (((this, [], None) # run T this cs) ! i) \<or>
   observed (run T this cs ! i) = Empty"
proof (induction cs arbitrary: this i)
  case Nil
  then show ?case by simp
next
  case (Cons c cs)
  obtain this' tr x where e: "exec T this c = (this', tr, x)"
    by (cases "exec T this c") auto
  from Cons.prems e have c': "consistent this'"
    by (auto dest: exec_consistent)
  show ?case
  proof (cases i)
    case 0
    with Cons.prems e obtain y where "x = Some y" by (auto simp: returned_simp)
    with Cons.prems e have "state_of this' = state_of this \<or> state_of this' = Empty"
      by (auto dest: exec_thrown)
    with 0 e show ?thesis by (simp add: observed_simp)
  next
    case (Suc j)
    with Cons.prems e have "j < length cs" "\<not> returned (run T this' cs ! j)" by simp_all
    with Cons.IH [OF c', of j] Cons.prems have
      "observed (run T this' cs ! j) = observed (((this', [], None) # run T this' cs) ! j) \<or>
       observed (run T this' cs ! j) = Empty"
      by simp
    moreover have "observed (((this', [], None) # run T this' cs) ! j) =
        observed (((this', tr, x) # run T this' cs) ! j)"
      by (cases j) (simp_all add: observed_simp)
    ultimately show ?thesis using Suc e by simp
  qed
qed

lemma nothrow_ctor:
  assumes "nothrow T"
  shows "copy_ctor T v \<noteq> Inl e" and "snd (move_ctor T v) \<noteq> Inl e"
    and "args_ctor T a \<noteq> Inl e"
proof -
  from assms obtain t1 t2 t3 where
    "copy_ctor T v = Inr t1" "snd (move_ctor T v) = Inr t2" "args_ctor T a = Inr t3"
    unfolding nothrow_def by blast
  then show "copy_ctor T v \<noteq> Inl e" and "snd (move_ctor T v) \<noteq> Inl e"
    and "args_ctor T a \<noteq> Inl e"
    by simp_all
qed

lemma nothrow_assign:
  "nothrow T \<Longrightarrow> snd (copy_assign T d s) = None"
  "nothrow T \<Longrightarrow> snd (move_assign T d s) = None"
  by (simp_all add: nothrow_def)

lemma exec_abort:
  assumes "consistent this" and "consistent_call c" and "exec T this c = (this', tr, x)"
  shows "x \<noteq> Some BadOptionalAccess \<and> (nothrow T \<longrightarrow> x = None)"
proof (cases c)
  case (AssignValueCopy v)
  from assms(1) show ?thesis
  proof (cases rule: consistent_cases)
    case 1
    with assms(3) AssignValueCopy show ?thesis
      by (auto simp: assign_copy_value_def construct_at_unset split: sum.splits
          dest: nothrow_ctor)
  next
    case (2 d)
    with assms(3) AssignValueCopy show ?thesis
      by (auto simp: assign_copy_value_def copy_assign_at_holding nothrow_assign)
  qed
next
  case (AssignValueMove v)
  from assms(1) show ?thesis
  proof (cases rule: consistent_cases)
    case 1
    with assms(3) AssignValueMove show ?thesis
      by (auto simp: assign_move_value_def construct_at_unset split: sum.splits
          dest: nothrow_ctor)
  next
    case (2 d)
    with assms(3) AssignValueMove show ?thesis
      by (auto simp: assign_move_value_def move_assign_at_holding nothrow_assign)
  qed
next
  case (AssignOptionalCopy rhs)
  with assms(2) have "consistent rhs" by simp
  then show ?thesis
  proof (cases rule: consistent_cases)
    case 1
    from assms(1) show ?thesis
      by (cases rule: consistent_cases)
        (use 1 assms(3) AssignOptionalCopy in \<open>auto simp: assign_copy_def\<close>)
  next
    case (2 s)
    from assms(1) show ?thesis
    proof (cases rule: consistent_cases)
      case 1
      with 2 assms(3) AssignOptionalCopy show ?thesis
        by (auto simp: assign_copy_def CopyFrom_simps construct_at_unset split: sum.splits
          dest: nothrow_ctor)
    next
      case (2 d)
      with \<open>rhs = holding s\<close> assms(3) AssignOptionalCopy show ?thesis
        by (auto simp: assign_copy_def CopyFrom_simps copy_assign_at_holding nothrow_assign)
    qed
  qed
next
  case (AssignOptionalMove rhs)
  with assms(2) have "consistent rhs" by simp
  then show ?thesis
  proof (cases rule: consistent_cases)
    case 1
    from assms(1) show ?thesis
      by (cases rule: consistent_cases)
        (use 1 assms(3) AssignOptionalMove in \<open>auto simp: assign_move_def\<close>)
  next
    case (2 s)
    from assms(1) show ?thesis
    proof (cases rule: consistent_cases)
      case 1
      with 2 assms(3) AssignOptionalMove show ?thesis
        by (auto simp: assign_move_def MoveFrom_simps construct_at_unset
            split: sum.splits prod.splits dest: nothrow_ctor)
    next
      case (2 d)
      with \<open>rhs = holding s\<close> assms(3) AssignOptionalMove show ?thesis
        by (auto simp: assign_move_def MoveFrom_simps move_assign_at_holding nothrow_assign)
    qed
  qed
next
  case (EmplaceCall a)
  from assms(1) show ?thesis
    by (cases rule: consistent_cases)
      (use assms(3) EmplaceCall in
        \<open>auto simp: Emplace_def construct_at_unset split: sum.splits
          dest: nothrow_ctor\<close>)
next
  case ResetCall
  from assms(1) show ?thesis
    by (cases rule: consistent_cases) (use assms(3) ResetCall in auto)
qed

lemma construct_abort:
  assumes "consistent_ctor k" and "construct T k = (this, tr, x)"
  shows "x \<noteq> Some BadOptionalAccess \<and> (nothrow T \<longrightarrow> x = None)"
proof (cases k)
  case Default
  with assms show ?thesis by auto
next
  case (FromValueCopy v)
  with assms show ?thesis
    by (auto simp: Optional_copy_value_def construct_at_unset split: sum.splits
          dest: nothrow_ctor)
next
  case (FromValueMove v)
  with assms show ?thesis
    by (auto simp: Optional_move_value_def construct_at_unset split: sum.splits
          dest: nothrow_ctor)
next
  case (FromOptionalCopy other)
  with assms(1) have "consistent other" by simp
  then show ?thesis
  proof (cases rule: consistent_cases)
    case 1
    with assms(2) FromOptionalCopy show ?thesis by (auto simp: Optional_copy_def)
  next
    case (2 s)
    with assms(2) FromOptionalCopy show ?thesis
      by (auto simp: Optional_copy_def CopyFrom_simps construct_at_unset split: sum.splits
          dest: nothrow_ctor)
  qed
next
  case (FromOptionalMove other)
  with assms(1) have "consistent other" by simp
  then show ?thesis
  proof (cases rule: consistent_cases)
    case 1
    with assms(2) FromOptionalMove show ?thesis by (auto simp: Optional_move_def)
  next
    case (2 s)
    with assms(2) FromOptionalMove show ?thesis
      by (auto simp: Optional_move_def MoveFrom_simps construct_at_unset
          split: sum.splits prod.splits dest: nothrow_ctor)
  qed
qed

lemma run_consistent:
  "consistent this \<Longrightarrow> list_all consistent_call cs \<Longrightarrow>
   list_all sound (run T this cs)"
proof (induction cs arbitrary: this)
  case Nil
  from Nil(1) show ?case
    by (cases rule: consistent_cases) (simp_all add: Optional_dtor_def consistent_unset sound_simp)
next
  case (Cons c cs)
  obtain this' tr x where e: "exec T this c = (this', tr, x)"
    by (cases "exec T this c") auto
  from Cons.prems e have "consistent this' \<and> x \<noteq> Some Undefined \<and> x \<noteq> Some BadOptionalAccess"
    by (auto dest: exec_consistent exec_abort)
  with Cons e show ?case by (simp add: sound_simp)
qed


lemma run_returns:
  "nothrow T \<Longrightarrow> consistent this \<Longrightarrow> list_all consistent_call cs \<Longrightarrow>
   list_all returned (run T this cs)"
proof (induction cs arbitrary: this)
  case Nil
  from Nil(2) show ?case
    by (cases rule: consistent_cases) (simp_all add: Optional_dtor_def returned_simp)
next
  case (Cons c cs)
  obtain this' tr x where e: "exec T this c = (this', tr, x)"
    by (cases "exec T this c") auto
  from Cons.prems e have "consistent this'" and "x = None"
    by (auto dest: exec_consistent exec_abort)
  with Cons e show ?case by (simp add: returned_simp)
qed


section \<open>C1: the lifetime of a container and the state machine\<close>

text \<open>
  Claim C1, as amended. For every element type and every lifetime of a container (one
  constructor, any sequence of value assignments, container assignments, \<open>Emplace\<close>
  and \<open>Reset\<close> calls, the destructor), where the containers given as sources are
  consistent ones:
  \<^item> after every call, also one that threw, the flag is set exactly when an object lives
    in the buffer; no call ran into undefined behaviour, and none threw anything but an
    exception of the element type;
  \<^item> when no operation of the element type throws, every call returns and the states
    that \<open>HasValue()\<close> shows are the run of the state machine;
  \<^item> for any element type, after the constructor, if it returned, \<open>HasValue()\<close> shows
    the initial state of the machine; after each later call that returned it shows the
    state the machine steps to from the state shown before that call; after a call that
    threw it shows the state shown before that call, or Empty; after the destructor it
    shows Empty;
  \<^item> so a lifetime all of whose calls returned shows the run of the machine.
\<close>

theorem lifetime_follows_state_machine:
  assumes "consistent_ctor k" and "list_all consistent_call cs"
  shows "list_all sound (lifetime T k cs) \<and>
         (nothrow T \<longrightarrow>
            list_all returned (lifetime T k cs) \<and>
            map observed (lifetime T k cs) = machine_lifetime k cs) \<and>
         (returned (lifetime T k cs ! 0) \<longrightarrow>
            observed (lifetime T k cs ! 0) = machine_init k \<and>
            (\<forall>i<length cs. returned (lifetime T k cs ! Suc i) \<longrightarrow>
               observed (lifetime T k cs ! Suc i) =
                 machine_step (observed (lifetime T k cs ! i)) (cs ! i)) \<and>
            (\<forall>i<length cs. \<not> returned (lifetime T k cs ! Suc i) \<longrightarrow>
               observed (lifetime T k cs ! Suc i) = observed (lifetime T k cs ! i) \<or>
               observed (lifetime T k cs ! Suc i) = Empty) \<and>
            observed (lifetime T k cs ! Suc (length cs)) = Empty) \<and>
         (list_all returned (lifetime T k cs) \<longrightarrow>
            map observed (lifetime T k cs) = machine_lifetime k cs)"
proof -
  obtain this tr x where k: "construct T k = (this, tr, x)"
    by (cases "construct T k") auto
  from construct_consistent [OF assms(1) k] construct_abort [OF assms(1) k]
  have c: "consistent this" "x \<noteq> Some Undefined" "x \<noteq> Some BadOptionalAccess"
    "nothrow T \<longrightarrow> x = None"
    by simp_all
  show ?thesis
  proof (cases x)
    case None
    with k have l: "lifetime T k cs = (this, tr, None) # run T this cs"
      by (simp add: lifetime_def)
    from None k assms(1) have i: "state_of this = machine_init k"
      by (auto dest: construct_state)
    have before: "observed (((this, [], None) # run T this cs) ! i) = observed (lifetime T k cs ! i)"
      for i
      unfolding l by (cases i) (simp_all add: observed_simp)
    have "observed (lifetime T k cs ! Suc i) =
            machine_step (observed (lifetime T k cs ! i)) (cs ! i)"
      if "i < length cs" and "returned (lifetime T k cs ! Suc i)" for i
      using run_step [OF c(1) assms(2) that(1), of T] that(2) before [of i]
      unfolding l by simp
    moreover have "observed (lifetime T k cs ! Suc i) = observed (lifetime T k cs ! i) \<or>
            observed (lifetime T k cs ! Suc i) = Empty"
      if "i < length cs" and "\<not> returned (lifetime T k cs ! Suc i)" for i
      using run_thrown [OF c(1) assms(2) that(1), of T] that(2) before [of i]
      unfolding l by simp
    moreover from run_last [OF c(1) assms(2), of T]
    have "observed (lifetime T k cs ! Suc (length cs)) = Empty"
      unfolding l by simp
    moreover from c(1) assms(2) i have "list_all sound (lifetime T k cs)"
      and m: "list_all returned (lifetime T k cs) \<longrightarrow>
         map observed (lifetime T k cs) = machine_lifetime k cs"
      unfolding l
      by (simp_all add: machine_lifetime_def run_consistent run_machine returned_simp
          sound_simp observed_simp)
    moreover have "list_all returned (lifetime T k cs)" if "nothrow T"
      using run_returns [OF that c(1) assms(2)] unfolding l by (simp add: returned_simp)
    moreover from i have "observed (lifetime T k cs ! 0) = machine_init k"
      unfolding l by (simp add: observed_simp)
    ultimately show ?thesis by blast
  next
    case (Some a)
    with k c show ?thesis
      by (simp add: lifetime_def returned_simp sound_simp)
  qed
qed


text \<open>
  With operations that never throw, the end-to-end scenario of the specification, with
  \<open>Emplace(3, 4)\<close> for \<open>Emplace(7)\<close>: a default container, \<open>c = 5\<close>, \<open>c.Reset()\<close>,
  \<open>c.Emplace(3, 4)\<close>, \<open>c = d\<close> for an empty \<open>d\<close>, and the destructor. With operations
  that throw on a negative operand: \<open>Optional<T> c(1)\<close>, \<open>c.Emplace(0, - 1)\<close>, which
  throws, \<open>c = 2\<close>, and the destructor.
\<close>

theorem lifetime_follows_state_machine_witness:
  "consistent_ctor Default \<and>
   list_all consistent_call
     [AssignValueCopy 5, ResetCall, EmplaceCall (3, 4), AssignOptionalCopy unset] \<and>
   nothrow plain \<and>
   list_all returned
     (lifetime plain Default
        [AssignValueCopy 5, ResetCall, EmplaceCall (3, 4), AssignOptionalCopy unset]) \<and>
   list_all sound
     (lifetime plain Default
        [AssignValueCopy 5, ResetCall, EmplaceCall (3, 4), AssignOptionalCopy unset]) \<and>
   map observed
     (lifetime plain Default
        [AssignValueCopy 5, ResetCall, EmplaceCall (3, 4), AssignOptionalCopy unset]) =
   [Empty, Occupied, Empty, Occupied, Empty, Empty] \<and>
   consistent_ctor (FromValueCopy (1 :: int)) \<and>
   list_all consistent_call [EmplaceCall (0, - 1), AssignValueCopy (2 :: int)] \<and>
   list_all sound
     (lifetime probe (FromValueCopy 1) [EmplaceCall (0, - 1), AssignValueCopy 2]) \<and>
   map returned
     (lifetime probe (FromValueCopy 1) [EmplaceCall (0, - 1), AssignValueCopy 2]) =
   [True, False, True, True] \<and>
   map observed
     (lifetime probe (FromValueCopy 1) [EmplaceCall (0, - 1), AssignValueCopy 2]) =
   [Occupied, Empty, Occupied, Empty]"
  using lifetime_follows_state_machine
    [of Default "[AssignValueCopy 5, ResetCall, EmplaceCall (3, 4), AssignOptionalCopy unset]" plain]
    lifetime_follows_state_machine
    [of "FromValueCopy 1" "[EmplaceCall (0, - 1), AssignValueCopy 2]" probe]
  by (simp add: lifetime_def Optional_default_def Optional_copy_value_def assign_copy_value_def
      construct_at_unset probe_def plain_def nothrow_def Emplace_def assign_copy_def
      Optional_dtor_def consistent_unset returned_simp observed_simp machine_lifetime_def)


text \<open>
  Claim C1, as it is written, fails for an element type whose constructor can throw:
  after \<open>Optional<T> c(1)\<close>, the call \<open>c.Emplace(0, - 1)\<close> destroys the element, its
  constructor throws, and \<open>HasValue()\<close> is false, where the state machine, which lists
  Occupied to Occupied for \<open>Emplace\<close>, has Occupied.
\<close>

theorem lifetime_state_machine_counterexample:
  "consistent_ctor (FromValueCopy (1 :: int)) \<and>
   list_all consistent_call [EmplaceCall (0, - 1) :: (int, int \<times> int) call] \<and>
   map observed (lifetime probe (FromValueCopy 1) [EmplaceCall (0, - 1)]) =
     [Occupied, Empty, Empty] \<and>
   machine_lifetime (FromValueCopy (1 :: int)) [EmplaceCall (0, - 1) :: (int, int \<times> int) call] =
     [Occupied, Occupied, Empty] \<and>
   map observed (lifetime probe (FromValueCopy 1) [EmplaceCall (0, - 1)]) \<noteq>
     machine_lifetime (FromValueCopy 1) [EmplaceCall (0, - 1)]"
  by (simp add: lifetime_def Optional_copy_value_def construct_at_unset probe_def Emplace_def
      Optional_dtor_def observed_simp machine_lifetime_def)

section \<open>C2: the checked accessor\<close>



section \<open>C3: a constructor of the element type that throws\<close>

text \<open>
  Claim C3. On every path that builds a new element, when the constructor of the element
  type throws \<open>e\<close>, the call ends with that same \<open>e\<close> and the container has no flag set
  over a missing object:
  \<^item> the two constructors from a value and the copy and move constructors from an occupied
    source leave the members at their initializers: flag false, no object in the buffer;
  \<^item> the four assignment operators on an empty container leave the container as it was;
  \<^item> \<open>Emplace\<close> leaves the container empty, after the destruction of the element it
    held, if it held one.
  After a move whose constructor throws, the source holds its element as the constructor
  left it.
\<close>

theorem constructor_failure_leaves_container_empty:
  "(copy_ctor T v = Inl e \<longrightarrow>
      Optional_copy_value T v = (unset, [CopyCtor], Some (ElementFailure e))) \<and>
   (snd (move_ctor T v) = Inl e \<longrightarrow>
      Optional_move_value T v = (unset, [MoveCtor], Some (ElementFailure e))) \<and>
   (consistent other \<and> data other = Some s \<longrightarrow>
      (copy_ctor T s = Inl e \<longrightarrow>
         Optional_copy T other = (unset, [CopyCtor], Some (ElementFailure e))) \<and>
      (snd (move_ctor T s) = Inl e \<longrightarrow>
         Optional_move T other =
           ((unset, holding (fst (move_ctor T s))), [MoveCtor], Some (ElementFailure e)))) \<and>
   (consistent this \<and> \<not> HasValue this \<longrightarrow>
      (copy_ctor T v = Inl e \<longrightarrow>
         assign_copy_value T this v = (this, [CopyCtor], Some (ElementFailure e))) \<and>
      (snd (move_ctor T v) = Inl e \<longrightarrow>
         assign_move_value T this v = (this, [MoveCtor], Some (ElementFailure e))) \<and>
      (consistent other \<and> data other = Some s \<and> copy_ctor T s = Inl e \<longrightarrow>
         assign_copy T this other = (this, [CopyCtor], Some (ElementFailure e))) \<and>
      (consistent other \<and> data other = Some s \<and> snd (move_ctor T s) = Inl e \<longrightarrow>
         assign_move T this other =
           ((this, holding (fst (move_ctor T s))), [MoveCtor], Some (ElementFailure e)))) \<and>
   (consistent this \<and> args_ctor T a = Inl e \<longrightarrow>
      Emplace T this a =
        (unset, (if HasValue this then [Dtor] else []) @ [ArgsCtor], Some (ElementFailure e))) \<and>
   consistent (unset :: 't Optional) \<and> \<not> HasValue (unset :: 't Optional) \<and>
   data (unset :: 't Optional) = None"
proof -
  have ctor: "Optional_copy_value T v = (unset, [CopyCtor], Some (ElementFailure e))"
    if "copy_ctor T v = Inl e"
    using that by (simp add: Optional_copy_value_def construct_at_unset)
  have mtor: "Optional_move_value T v = (unset, [MoveCtor], Some (ElementFailure e))"
    if "snd (move_ctor T v) = Inl e"
    using that by (simp add: Optional_move_value_def construct_at_unset)
  have src: "(copy_ctor T s = Inl e \<longrightarrow>
         Optional_copy T other = (unset, [CopyCtor], Some (ElementFailure e))) \<and>
      (snd (move_ctor T s) = Inl e \<longrightarrow>
         Optional_move T other =
           ((unset, holding (fst (move_ctor T s))), [MoveCtor], Some (ElementFailure e)))"
    if "consistent other" and "data other = Some s"
    using consistent_data [OF that]
    by (simp add: Optional_copy_def Optional_move_def CopyFrom_simps MoveFrom_simps
        construct_at_unset)
  have asg: "(copy_ctor T v = Inl e \<longrightarrow>
         assign_copy_value T this v = (this, [CopyCtor], Some (ElementFailure e))) \<and>
      (snd (move_ctor T v) = Inl e \<longrightarrow>
         assign_move_value T this v = (this, [MoveCtor], Some (ElementFailure e))) \<and>
      (consistent other \<and> data other = Some s \<and> copy_ctor T s = Inl e \<longrightarrow>
         assign_copy T this other = (this, [CopyCtor], Some (ElementFailure e))) \<and>
      (consistent other \<and> data other = Some s \<and> snd (move_ctor T s) = Inl e \<longrightarrow>
         assign_move T this other =
           ((this, holding (fst (move_ctor T s))), [MoveCtor], Some (ElementFailure e)))"
    if "consistent this" and "\<not> HasValue this"
    using consistent_not_HasValue [OF that]
    by (auto simp: assign_copy_value_def assign_move_value_def assign_copy_def assign_move_def
        CopyFrom_simps MoveFrom_simps construct_at_unset dest!: consistent_data)
  have emp: "Emplace T this a =
        (unset, (if HasValue this then [Dtor] else []) @ [ArgsCtor], Some (ElementFailure e))"
    if "consistent this" and "args_ctor T a = Inl e"
    using that(1)
    by (cases rule: consistent_cases)
      (use that(2) in \<open>simp_all add: Emplace_def construct_at_unset\<close>)
  from ctor mtor src asg emp show ?thesis
    by (simp add: consistent_unset)
qed

text \<open>
  Every constructor of \<open>probe\<close> throws \<open>- 1\<close> on the operand \<open>- 1\<close>, and \<open>T(0, - 1)\<close>
  does.
\<close>

theorem constructor_failure_leaves_container_empty_witness:
  "copy_ctor probe (- 1) = Inl (- 1) \<and> snd (move_ctor probe (- 1)) = Inl (- 1) \<and>
   args_ctor probe (0, - 1) = Inl (- 1) \<and>
   consistent (holding (- 1 :: int)) \<and> data (holding (- 1 :: int)) = Some (- 1) \<and>
   consistent (unset :: int Optional) \<and> \<not> HasValue (unset :: int Optional) \<and>
   Optional_copy_value probe (- 1) = (unset, [CopyCtor], Some (ElementFailure (- 1))) \<and>
   Optional_move_value probe (- 1) = (unset, [MoveCtor], Some (ElementFailure (- 1))) \<and>
   Optional_copy probe (holding (- 1)) = (unset, [CopyCtor], Some (ElementFailure (- 1))) \<and>
   Optional_move probe (holding (- 1)) =
     ((unset, holding (- 1)), [MoveCtor], Some (ElementFailure (- 1))) \<and>
   assign_copy_value probe unset (- 1) = (unset, [CopyCtor], Some (ElementFailure (- 1))) \<and>
   assign_move_value probe unset (- 1) = (unset, [MoveCtor], Some (ElementFailure (- 1))) \<and>
   assign_copy probe unset (holding (- 1)) = (unset, [CopyCtor], Some (ElementFailure (- 1))) \<and>
   assign_move probe unset (holding (- 1)) =
     ((unset, holding (- 1)), [MoveCtor], Some (ElementFailure (- 1))) \<and>
   Emplace probe unset (0, - 1) = (unset, [ArgsCtor], Some (ElementFailure (- 1))) \<and>
   Emplace probe (holding 5) (0, - 1) = (unset, [Dtor, ArgsCtor], Some (ElementFailure (- 1)))"
  using constructor_failure_leaves_container_empty
    [of probe "- 1" "- 1" "holding (- 1)" "- 1" unset "(0, - 1)"]
    constructor_failure_leaves_container_empty
    [of probe "- 1" "- 1" "holding (- 1)" "- 1" "holding 5" "(0, - 1)"]
  by (simp add: probe_def consistent_holding consistent_unset)

section \<open>C4: assignment of a value\<close>

text \<open>
  Claim C4. For a consistent container and both \<open>operator=(const T&)\<close> and
  \<open>operator=(T&&)\<close>:
  \<^item> on an empty container, when the constructor of the element type returns \<open>t\<close>, the one
    call made on the element type is that constructor, and the container then holds \<open>t\<close>
    with the flag set;
  \<^item> on a container that holds \<open>d\<close>, the one call made on the element type is its
    assignment operator, with no destructor and no constructor call; the container stays
    non-empty and holds \<open>d\<close> as the assignment left it, and an exception of the assignment
    passes through.
\<close>

theorem value_assignment_constructs_or_assigns:
  "consistent this \<Longrightarrow>
   (\<not> HasValue this \<longrightarrow>
      (copy_ctor T v = Inr t \<longrightarrow>
         assign_copy_value T this v = (holding t, [CopyCtor], None)) \<and>
      (snd (move_ctor T v) = Inr t \<longrightarrow>
         assign_move_value T this v = (holding t, [MoveCtor], None))) \<and>
   (data this = Some d \<longrightarrow>
      assign_copy_value T this v =
        (holding (fst (copy_assign T d v)), [CopyAssign],
         map_option ElementFailure (snd (copy_assign T d v))) \<and>
      assign_move_value T this v =
        (holding (fst (fst (move_assign T d v))), [MoveAssign],
         map_option ElementFailure (snd (move_assign T d v)))) \<and>
   HasValue (holding t) \<and> data (holding t) = Some t"
  by (cases rule: consistent_cases)
    (auto simp: assign_copy_value_def assign_move_value_def construct_at_unset
      copy_assign_at_holding move_assign_at_holding)

text \<open>\<open>c = 5\<close> on an empty container and on one that holds \<open>3\<close>.\<close>

theorem value_assignment_constructs_or_assigns_witness:
  "consistent (unset :: int Optional) \<and> \<not> HasValue (unset :: int Optional) \<and>
   copy_ctor probe 5 = Inr 5 \<and> snd (move_ctor probe 5) = Inr 5 \<and>
   assign_copy_value probe unset 5 = (holding 5, [CopyCtor], None) \<and>
   assign_move_value probe unset 5 = (holding 5, [MoveCtor], None) \<and>
   consistent (holding (3 :: int)) \<and> data (holding (3 :: int)) = Some 3 \<and>
   assign_copy_value probe (holding 3) 5 = (holding 5, [CopyAssign], None) \<and>
   assign_move_value probe (holding 3) 5 = (holding 5, [MoveAssign], None)"
  using value_assignment_constructs_or_assigns [of unset probe 5 5 3]
    value_assignment_constructs_or_assigns [of "holding 3" probe 5 5 3]
  by (simp add: probe_def consistent_holding consistent_unset)

section \<open>C5: construction from a value and copy construction\<close>

text \<open>
  Claim C5. When the constructor of the element type builds \<open>t\<close> from \<open>v\<close> (for an element
  type that copies faithfully, \<open>t\<close> is \<open>v\<close>), a container constructed from \<open>v\<close> has
  \<open>HasValue()\<close> true and \<open>Value()\<close> returns \<open>t\<close>. Copy construction from an empty source
  gives an empty container and calls nothing on the element type. Copy construction
  from a consistent source that holds \<open>s\<close> calls the copy constructor on \<open>s\<close> once and
  gives a container that holds its result, flag set.
\<close>

theorem construction_from_value_and_copy:
  "(copy_ctor T v = Inr t \<longrightarrow>
      Optional_copy_value T v = (holding t, [CopyCtor], None)) \<and>
   (snd (move_ctor T v) = Inr t \<longrightarrow>
      Optional_move_value T v = (holding t, [MoveCtor], None)) \<and>
   HasValue (holding t) \<and>
   Value_const (holding t) = (holding t, Inr t :: 'e abort + 't) \<and>
   (\<not> HasValue other \<longrightarrow>
      Optional_copy T other = (unset, [], None) \<and> \<not> HasValue (unset :: 't Optional)) \<and>
   (consistent other \<and> data other = Some s \<and> copy_ctor T s = Inr t \<longrightarrow>
      Optional_copy T other = (holding t, [CopyCtor], None))"
  for T :: "('t, 'a, 'e) element"
proof -
  have "Optional_copy T other = (holding t, [CopyCtor], None)"
    if "consistent other" and "data other = Some s" and "copy_ctor T s = Inr t"
    using consistent_data [OF that(1,2)] that(3)
    by (simp add: Optional_copy_def CopyFrom_simps construct_at_unset)
  then show ?thesis
    by (simp add: Optional_copy_value_def Optional_move_value_def construct_at_unset
        Optional_copy_def HasValue_def Value_const_def)
qed

text \<open>\<open>Optional<int>(5)\<close>, and the copies of an empty container and of one that holds \<open>5\<close>.\<close>

theorem construction_from_value_and_copy_witness:
  "copy_ctor probe 5 = Inr 5 \<and> snd (move_ctor probe 5) = Inr 5 \<and>
   Optional_copy_value probe 5 = (holding 5, [CopyCtor], None) \<and>
   Optional_move_value probe 5 = (holding 5, [MoveCtor], None) \<and>
   Value_const (holding (5 :: int)) = (holding 5, Inr 5 :: int abort + int) \<and>
   \<not> HasValue (unset :: int Optional) \<and>
   Optional_copy probe unset = (unset, [], None) \<and>
   consistent (holding (5 :: int)) \<and> data (holding (5 :: int)) = Some 5 \<and>
   Optional_copy probe (holding 5) = (holding 5, [CopyCtor], None)"
  using construction_from_value_and_copy [of probe 5 5 unset 5]
    construction_from_value_and_copy [of probe 5 5 "holding 5" 5]
  by (simp add: probe_def consistent_holding)

section \<open>C6: assignment from an empty container\<close>

text \<open>
  Claim C6. Copy and move assignment from an empty source: an empty target is returned
  as it was and nothing is called on the element type; a consistent target that holds a
  value has its element destroyed, by one destructor call, and ends empty. The source of
  the move assignment is returned as it was.
\<close>

theorem assignment_from_empty_source:
  "\<not> HasValue rhs \<Longrightarrow>
   (\<not> HasValue this \<longrightarrow>
      assign_copy T this rhs = (this, [], None) \<and>
      assign_move T this rhs = ((this, rhs), [], None)) \<and>
   (HasValue this \<and> consistent this \<longrightarrow>
      assign_copy T this rhs = (unset, [Dtor], None) \<and>
      assign_move T this rhs = ((unset, rhs), [Dtor], None)) \<and>
   \<not> HasValue (unset :: 't Optional) \<and> data (unset :: 't Optional) = None"
  for T :: "('t, 'a, 'e) element"
proof -
  assume rhs: "\<not> HasValue rhs"
  have "assign_copy T this rhs = (unset, [Dtor], None) \<and>
      assign_move T this rhs = ((unset, rhs), [Dtor], None)"
    if "HasValue this" and "consistent this"
    using that(2)
    by (cases rule: consistent_cases)
      (use that(1) rhs in \<open>auto simp: assign_copy_def assign_move_def HasValue_def\<close>)
  with rhs show ?thesis
    by (simp add: assign_copy_def assign_move_def HasValue_def)
qed

text \<open>An empty source assigned to an empty target and to one that holds \<open>5\<close>.\<close>

theorem assignment_from_empty_source_witness:
  "\<not> HasValue (unset :: int Optional) \<and>
   assign_copy probe unset unset = (unset, [], None) \<and>
   assign_move probe unset unset = ((unset, unset), [], None) \<and>
   HasValue (holding (5 :: int)) \<and> consistent (holding (5 :: int)) \<and>
   assign_copy probe (holding 5) unset = (unset, [Dtor], None) \<and>
   assign_move probe (holding 5) unset = ((unset, unset), [Dtor], None)"
  using assignment_from_empty_source [of unset unset probe]
    assignment_from_empty_source [of unset "holding 5" probe]
  by (simp add: consistent_holding)

section \<open>C7: Reset and the destructor\<close>

text \<open>
  Claim C7. \<open>Reset()\<close> on an empty container returns it as it was, calls nothing and
  does not fail. On a consistent container that holds a value it makes one destructor
  call and leaves the flag false and the buffer without an object. A second \<open>Reset()\<close>
  right after a first changes nothing. The destructor of the container does what
  \<open>Reset()\<close> does.
\<close>

theorem Reset_destroys_once:
  "(\<not> HasValue this \<longrightarrow> Reset this = (this, [], None :: 'e abort option)) \<and>
   (HasValue this \<and> consistent this \<longrightarrow>
      Reset this = (unset, [Dtor], None :: 'e abort option)) \<and>
   (consistent this \<longrightarrow>
      (case (Reset this :: ('t, 'e) effect) of
         (this', _, _) \<Rightarrow> Reset this' = (this', [], None :: 'e abort option))) \<and>
   Optional_dtor this = (Reset this :: ('t, 'e) effect) \<and>
   \<not> HasValue (unset :: 't Optional) \<and> data (unset :: 't Optional) = None"
proof -
  have "Reset this = (unset, [Dtor], None :: 'e abort option)"
    if "HasValue this" and "consistent this"
    using that(2) by (cases rule: consistent_cases) (use that(1) in auto)
  moreover have "case (Reset this :: ('t, 'e) effect) of
         (this', _, _) \<Rightarrow> Reset this' = (this', [], None :: 'e abort option)"
    if "consistent this"
    using that by (cases rule: consistent_cases) auto
  ultimately show ?thesis
    by (simp add: Reset_def Optional_dtor_def HasValue_def)
qed

text \<open>\<open>Reset()\<close> on an empty container and on one that holds \<open>5\<close>.\<close>

theorem Reset_destroys_once_witness:
  "\<not> HasValue (unset :: int Optional) \<and>
   Reset (unset :: int Optional) = (unset, [], None :: int abort option) \<and>
   HasValue (holding (5 :: int)) \<and> consistent (holding (5 :: int)) \<and>
   Reset (holding (5 :: int)) = (unset, [Dtor], None :: int abort option) \<and>
   Optional_dtor (holding (5 :: int)) = (unset, [Dtor], None :: int abort option)"
  using Reset_destroys_once [of "unset :: int Optional", where ?'e = int]
    Reset_destroys_once [of "holding (5 :: int)", where ?'e = int]
  by (auto simp: consistent_holding)

section \<open>C8: Emplace\<close>

text \<open>
  Claim C8. On a consistent container, empty or not, the calls that \<open>Emplace\<close> makes on
  the element type are those of \<open>Reset()\<close> (one destructor call if the container held a
  value, none otherwise) and then one call of the constructor that takes the arguments;
  no copy or move constructor is called. When that constructor returns \<open>t\<close>, the
  container holds \<open>t\<close> with the flag set.
\<close>

theorem Emplace_resets_then_constructs:
  "consistent this \<Longrightarrow>
   fst (snd (Emplace T this a)) = fst (snd (Reset this :: ('t, 'e) effect)) @ [ArgsCtor] \<and>
   fst (snd (Reset this :: ('t, 'e) effect)) = (if HasValue this then [Dtor] else []) \<and>
   (args_ctor T a = Inr t \<longrightarrow>
      Emplace T this a = (holding t, (if HasValue this then [Dtor] else []) @ [ArgsCtor], None)) \<and>
   HasValue (holding t) \<and> data (holding t) = Some t"
  for T :: "('t, 'a, 'e) element"
  by (cases rule: consistent_cases)
    (auto simp: Emplace_def construct_at_unset split: sum.splits)

text \<open>\<open>Emplace(3, 4)\<close> on an empty container and on one that holds \<open>5\<close>.\<close>

theorem Emplace_resets_then_constructs_witness:
  "consistent (unset :: int Optional) \<and> consistent (holding (5 :: int)) \<and>
   args_ctor probe (3, 4) = Inr 7 \<and>
   Emplace probe unset (3, 4) = (holding 7, [ArgsCtor], None) \<and>
   Emplace probe (holding 5) (3, 4) = (holding 7, [Dtor, ArgsCtor], None)"
  using Emplace_resets_then_constructs [of unset probe "(3, 4)" 7]
    Emplace_resets_then_constructs [of "holding 5" probe "(3, 4)" 7]
  by (simp add: probe_def consistent_holding consistent_unset)

section \<open>C9: the source of a move\<close>

text \<open>
  Claim C9. After move construction or move assignment from a consistent source that
  holds \<open>s\<close>, the source still has its flag set and holds the moved-from element: what
  the move constructor left of \<open>s\<close> when the target was empty, what the move assignment
  left of \<open>s\<close> when the target held \<open>d\<close>. This does not depend on whether the move
  returned or threw.
\<close>

theorem move_leaves_source_occupied:
  "consistent other \<Longrightarrow> data other = Some s \<Longrightarrow>
   snd (fst (Optional_move T other)) = holding (fst (move_ctor T s)) \<and>
   (consistent this \<and> \<not> HasValue this \<longrightarrow>
      snd (fst (assign_move T this other)) = holding (fst (move_ctor T s))) \<and>
   (consistent this \<and> data this = Some d \<longrightarrow>
      snd (fst (assign_move T this other)) = holding (snd (fst (move_assign T d s)))) \<and>
   (\<forall>m. HasValue (holding m) \<and> data (holding m) = Some m)"
proof -
  assume "consistent other" and "data other = Some s"
  then have o: "other = holding s" by (rule consistent_data)
  have "snd (fst (assign_move T this other)) = holding (fst (move_ctor T s))"
    if "consistent this" and "\<not> HasValue this"
    using consistent_not_HasValue [OF that] o
    by (simp add: assign_move_def MoveFrom_simps split: prod.splits)
  moreover have "snd (fst (assign_move T this other)) = holding (snd (fst (move_assign T d s)))"
    if "consistent this" and "data this = Some d"
    using consistent_data [OF that] o
    by (simp add: assign_move_def MoveFrom_simps move_assign_at_holding)
  moreover from o have "snd (fst (Optional_move T other)) = holding (fst (move_ctor T s))"
    by (simp add: Optional_move_def MoveFrom_simps split: prod.splits)
  ultimately show ?thesis by simp
qed

text \<open>A move of \<open>probe\<close> leaves \<open>0\<close> in its operand: the source holds \<open>0\<close> afterwards.\<close>

theorem move_leaves_source_occupied_witness:
  "consistent (holding (5 :: int)) \<and> data (holding (5 :: int)) = Some 5 \<and>
   Optional_move probe (holding 5) = ((holding 5, holding 0), [MoveCtor], None) \<and>
   consistent (unset :: int Optional) \<and> \<not> HasValue (unset :: int Optional) \<and>
   assign_move probe unset (holding 5) = ((holding 5, holding 0), [MoveCtor], None) \<and>
   consistent (holding (3 :: int)) \<and> data (holding (3 :: int)) = Some 3 \<and>
   assign_move probe (holding 3) (holding 5) = ((holding 5, holding 0), [MoveAssign], None) \<and>
   HasValue (holding (0 :: int))"
  using move_leaves_source_occupied [of "holding 5" 5 probe unset 3]
    move_leaves_source_occupied [of "holding 5" 5 probe "holding 3" 3]
  by (simp add: probe_def consistent_holding consistent_unset Optional_move_def
      assign_move_def MoveFrom_simps construct_at_unset move_assign_at_holding)

section \<open>C10: self-assignment\<close>

text \<open>
  Claim C10. For a consistent container at address \<open>c\<close> of a store, \<open>c = c\<close> leaves
  \<open>HasValue()\<close> as it was and writes to no other object. An empty \<open>c\<close> is left as it was
  and nothing is called on the element type. A \<open>c\<close> that holds \<open>d\<close> stays occupied: the
  one call made is the copy assignment of the element type, with \<open>d\<close> as both operands;
  no destructor and no constructor is called.
\<close>

theorem self_copy_assignment:
  "consistent (h c) \<Longrightarrow>
   (\<not> HasValue (h c) \<longrightarrow> assign_copy_in T h c c = (h, [], None)) \<and>
   (\<forall>d. data (h c) = Some d \<longrightarrow>
      assign_copy_in T h c c =
        (h(c := holding (fst (copy_assign T d d))), [CopyAssign],
         map_option ElementFailure (snd (copy_assign T d d)))) \<and>
   (case assign_copy_in T h c c of
      (h', tr, x) \<Rightarrow>
        HasValue (h' c) = HasValue (h c) \<and> consistent (h' c) \<and>
        Dtor \<notin> set tr \<and> CopyCtor \<notin> set tr \<and> MoveCtor \<notin> set tr \<and> ArgsCtor \<notin> set tr \<and>
        (\<forall>a. a \<noteq> c \<longrightarrow> h' a = h a))"
proof -
  assume "consistent (h c)"
  then show ?thesis
  proof (cases rule: consistent_cases)
    case 1
    then have "assign_copy_in T h c c = (h, [], None)"
      by (simp add: assign_copy_in_def assign_copy_def fun_upd_idem)
    with 1 show ?thesis by (simp add: consistent_unset)
  next
    case (2 t)
    then have "assign_copy_in T h c c =
          (h(c := holding (fst (copy_assign T t t))), [CopyAssign],
           map_option ElementFailure (snd (copy_assign T t t)))"
      by (simp add: assign_copy_in_def assign_copy_def CopyFrom_simps copy_assign_at_holding)
    with 2 show ?thesis by (simp add: consistent_holding)
  qed
qed

text \<open>A store with a container that holds \<open>5\<close> at address \<open>1\<close> and empty ones elsewhere.\<close>

theorem self_copy_assignment_witness:
  "consistent (((\<lambda>_. unset)(1 := holding (5 :: int))) 1) \<and>
   consistent (((\<lambda>_. unset)(1 := holding (5 :: int))) 0) \<and>
   assign_copy_in probe ((\<lambda>_. unset)(1 := holding 5)) 1 1 =
     ((\<lambda>_. unset)(1 := holding 5), [CopyAssign], None) \<and>
   assign_copy_in probe ((\<lambda>_. unset)(1 := holding 5)) 0 0 =
     ((\<lambda>_. unset)(1 := holding 5), [], None)"
  using self_copy_assignment [of "(\<lambda>_. unset)(1 := holding 5)" 1 probe]
    self_copy_assignment [of "(\<lambda>_. unset)(1 := holding 5)" 0 probe]
  by (simp add: probe_def consistent_holding consistent_unset)

end
